theory Spec2Isabelle
  imports Complex_Main "HOL-Library.AList"
begin

section \<open>The habit store: data model\<close>

text \<open>
  The store of \<^verbatim>\<open>HabitStore.ts\<close> keeps a \<^verbatim>\<open>Map<string, Habit>\<close> in memory and
  mirrors it to one JSON document on disk. The records are those of \<^verbatim>\<open>types.ts\<close>.
  The optional property \<^verbatim>\<open>description\<close> is an option: \<open>None\<close> is a record whose
  \<^verbatim>\<open>description\<close> reads \<^verbatim>\<open>undefined\<close>. Records are modelled by value: each record
  has its \<^verbatim>\<open>completions\<close> array to itself, as the records of a loaded document have.
  Two records that share one array (a caller can hand the same array to two
  \<^verbatim>\<open>addHabit\<close> calls) are not modelled.
\<close>

datatype frequency = Daily | Weekly | Custom

record Habit =
  id' :: string
  name :: string
  description :: "string option"
  frequency :: frequency
  completions :: "string list"
  createdAt :: string

record HabitsData =
  habits_of :: "Habit list"

text \<open>
  The argument of \<^verbatim>\<open>addHabit\<close>: \<^verbatim>\<open>name\<close> and \<^verbatim>\<open>frequency\<close> are required,
  \<^verbatim>\<open>description\<close>, \<^verbatim>\<open>id\<close>, \<^verbatim>\<open>completions\<close> and \<^verbatim>\<open>createdAt\<close> may be left out.
\<close>

record HabitAttrs =
  a_id :: "string option"
  a_name :: string
  a_description :: "string option"
  a_frequency :: frequency
  a_completions :: "string list option"
  a_createdAt :: "string option"

text \<open>
  The argument of \<^verbatim>\<open>updateHabit\<close>, a \<^verbatim>\<open>Partial<Habit>\<close>: every property may be left
  out (\<open>None\<close>). The property \<^verbatim>\<open>description\<close> may also be present and hold
  \<^verbatim>\<open>undefined\<close> (\<open>Some None\<close>), which the spread copies over the old value. A
  required property that is present holds a value of its declared type.
\<close>

record HabitPatch =
  p_id :: "string option"
  p_name :: "string option"
  p_description :: "string option option"
  p_frequency :: "frequency option"
  p_completions :: "string list option"
  p_createdAt :: "string option"

subsection \<open>Errors and outcomes of the asynchronous methods\<close>

text \<open>
  \<open>Error msg\<close> is \<^verbatim>\<open>new Error(msg)\<close>; \<open>ErrnoException c\<close> is a failure of the storage
  layer with its \<^verbatim>\<open>code\<close>; \<open>TypeError\<close> is the engine's error for a property read
  on \<^verbatim>\<open>null\<close>. A method's promise resolves with a value or rejects with an error.
  \<open>Untyped\<close> marks the one place where the source goes on with values that its declared
  types exclude (a document whose \<^verbatim>\<open>habits\<close> array holds something that is not a
  \<^verbatim>\<open>Habit\<close>); the typed model ends there.
\<close>

datatype error = Error string | ErrnoException string | TypeError

datatype 'a outcome = Resolved 'a | Rejected error | Untyped

fun code :: "error \<Rightarrow> string option" where
  "code (ErrnoException c) = Some c"
| "code _ = None"

subsection \<open>JSON values and the document format\<close>

text \<open>
  A JSON value as \<^verbatim>\<open>JSON.parse\<close> delivers it; an object lists its properties, each key
  once.
\<close>

datatype json =
  JNull
| JBool bool
| JNumber real
| JString string
| JArray "json list"
| JObject "(string \<times> json) list"

text \<open>
  The text of a file is represented by what \<^verbatim>\<open>JSON.parse\<close> makes of it: a text that
  is not JSON, or the text of a JSON value. \<^verbatim>\<open>JSON.stringify\<close> writes the text of the
  value it is given (and leaves out a property that holds \<^verbatim>\<open>undefined\<close>).
\<close>

datatype file_text = Not_JSON | JSON_text json

fun JSON_parse :: "file_text \<Rightarrow> json option" where
  "JSON_parse Not_JSON = None"
| "JSON_parse (JSON_text v) = Some v"

fun frequency_string :: "frequency \<Rightarrow> string" where
  "frequency_string Daily = ''daily''"
| "frequency_string Weekly = ''weekly''"
| "frequency_string Custom = ''custom''"

definition Habit_json :: "Habit \<Rightarrow> json" where
  "Habit_json h =
     JObject ([(''id'', JString (id' h)),
               (''name'', JString (name h)),
               (''frequency'', JString (frequency_string (frequency h))),
               (''completions'', JArray (map JString (completions h))),
               (''createdAt'', JString (createdAt h))]
              @ (case description h of
                   None \<Rightarrow> []
                 | Some d \<Rightarrow> [(''description'', JString d)]))"

definition HabitsData_json :: "HabitsData \<Rightarrow> json" where
  "HabitsData_json d = JObject [(''habits'', JArray (map Habit_json (habits_of d)))]"

definition JSON_stringify :: "HabitsData \<Rightarrow> file_text" where
  "JSON_stringify d = JSON_text (HabitsData_json d)"

text \<open>The typed reading of a parsed value: the \<^verbatim>\<open>Habit\<close> it is, if it is one.\<close>

fun as_string :: "json \<Rightarrow> string option" where
  "as_string (JString s) = Some s"
| "as_string _ = None"

fun as_strings :: "json \<Rightarrow> string list option" where
  "as_strings (JArray vs) = those (map as_string vs)"
| "as_strings _ = None"

definition as_frequency :: "json \<Rightarrow> frequency option" where
  "as_frequency v =
     (if v = JString ''daily'' then Some Daily
      else if v = JString ''weekly'' then Some Weekly
      else if v = JString ''custom'' then Some Custom
      else None)"

definition Habit_keys :: "string list" where
  "Habit_keys = [''id'', ''name'', ''description'', ''frequency'', ''completions'', ''createdAt'']"

fun as_Habit :: "json \<Rightarrow> Habit option" where
  "as_Habit (JObject kvs) =
     (if \<not> list_all (\<lambda>k. k \<in> set Habit_keys) (map fst kvs) then None
      else
        Option.bind (Option.bind (map_of kvs ''id'') as_string) (\<lambda>i.
        Option.bind (Option.bind (map_of kvs ''name'') as_string) (\<lambda>n.
        Option.bind (Option.bind (map_of kvs ''frequency'') as_frequency) (\<lambda>f.
        Option.bind (Option.bind (map_of kvs ''completions'') as_strings) (\<lambda>cs.
        Option.bind (Option.bind (map_of kvs ''createdAt'') as_string) (\<lambda>t.
        Option.bind (case map_of kvs ''description'' of
                       None \<Rightarrow> Some None
                     | Some v \<Rightarrow> map_option Some (as_string v)) (\<lambda>d.
        Some \<lparr>id' = i, name = n, description = d, frequency = f,
              completions = cs, createdAt = t\<rparr>)))))))"
| "as_Habit _ = None"

subsection \<open>The file system\<close>

text \<open>
  The storage provider is an external collaborator. A disk holds the text of its files;
  \<open>fault\<close> says which of the four calls the store makes fails, and with which code.
  The directory tree is not modelled: \<^verbatim>\<open>mkdir\<close> with \<^verbatim>\<open>recursive\<close> succeeds unless it
  faults.
\<close>

datatype fs_call = ReadFile | Mkdir | WriteFile | Rename

record disk =
  files :: "string \<Rightarrow> file_text option"
  fault :: "fs_call \<Rightarrow> string option"

definition readFile :: "disk \<Rightarrow> string \<Rightarrow> error + file_text" where
  "readFile d path =
     (case fault d ReadFile of
        Some c \<Rightarrow> Inl (ErrnoException c)
      | None \<Rightarrow>
          (case files d path of
             None \<Rightarrow> Inl (ErrnoException ''ENOENT'')
           | Some raw \<Rightarrow> Inr raw))"

definition mkdir :: "disk \<Rightarrow> error + disk" where
  "mkdir d = (case fault d Mkdir of Some c \<Rightarrow> Inl (ErrnoException c) | None \<Rightarrow> Inr d)"

definition writeFile :: "disk \<Rightarrow> string \<Rightarrow> file_text \<Rightarrow> error + disk" where
  "writeFile d path txt =
     (case fault d WriteFile of
        Some c \<Rightarrow> Inl (ErrnoException c)
      | None \<Rightarrow> Inr (d\<lparr>files := (files d)(path \<mapsto> txt)\<rparr>))"

definition rename :: "disk \<Rightarrow> string \<Rightarrow> string \<Rightarrow> error + disk" where
  "rename d old new =
     (case fault d Rename of
        Some c \<Rightarrow> Inl (ErrnoException c)
      | None \<Rightarrow>
          (case files d old of
             None \<Rightarrow> Inl (ErrnoException ''ENOENT'')
           | Some txt \<Rightarrow> Inr (d\<lparr>files := (files d)(old := None, new \<mapsto> txt)\<rparr>)))"

subsection \<open>The in-memory mapping\<close>

text \<open>
  A JavaScript \<^verbatim>\<open>Map\<close> enumerates its entries in insertion order; \<^verbatim>\<open>set\<close> on a key
  that is present replaces the value where it stands, \<^verbatim>\<open>set\<close> on a new key appends.
  It is an association list with these operations.
\<close>

type_synonym habit_map = "(string \<times> Habit) list"

definition Map_get :: "habit_map \<Rightarrow> string \<Rightarrow> Habit option" where
  "Map_get m k = map_of m k"

definition Map_has :: "habit_map \<Rightarrow> string \<Rightarrow> bool" where
  "Map_has m k = (map_of m k \<noteq> None)"

definition Map_set :: "habit_map \<Rightarrow> string \<Rightarrow> Habit \<Rightarrow> habit_map" where
  "Map_set m k v = AList.update k v m"

definition Map_delete :: "habit_map \<Rightarrow> string \<Rightarrow> habit_map" where
  "Map_delete m k = AList.delete k m"

definition Map_values :: "habit_map \<Rightarrow> Habit list" where
  "Map_values m = map snd m"

definition Map_new :: "(string \<times> Habit) list \<Rightarrow> habit_map" where
  "Map_new entries = foldl (\<lambda>m (k, v). Map_set m k v) [] entries"

section \<open>The store\<close>

text \<open>
  A store instance (its mapping and its file path) together with the disk it works on.
  Every method takes the state and returns its outcome with the state it leaves behind:
  a method that rejects after it changed the mapping leaves the mapping changed.
\<close>

record state =
  habits :: habit_map
  filePath :: string
  disk :: disk

text \<open>The two messages of a corrupt data file.\<close>

definition invalid_JSON :: "string \<Rightarrow> string" where
  "invalid_JSON path = ''Corrupt data file at '' @ path @ '': invalid JSON''"

definition must_be_array :: "string \<Rightarrow> string" where
  \<open>must_be_array path = ''Corrupt data file at '' @ path @ '': "habits" must be an array''\<close>

definition load :: "state \<Rightarrow> unit outcome \<times> state" where
  "load s =
     (case readFile (disk s) (filePath s) of
        Inl err \<Rightarrow>
          (if code err = Some ''ENOENT'' then (Resolved (), s\<lparr>habits := []\<rparr>)
           else (Rejected err, s))
      | Inr raw \<Rightarrow>
          (case JSON_parse raw of
             None \<Rightarrow> (Rejected (Error (invalid_JSON (filePath s))), s)
           | Some data \<Rightarrow>
               (case data of
                  JNull \<Rightarrow> (Rejected TypeError, s)
                | JObject kvs \<Rightarrow>
                    (case map_of kvs ''habits'' of
                       Some (JArray hs) \<Rightarrow>
                         (if JNull \<in> set hs then (Rejected TypeError, s)
                          else
                            (case those (map as_Habit hs) of
                               None \<Rightarrow> (Untyped, s)
                             | Some hs' \<Rightarrow>
                                 (Resolved (),
                                  s\<lparr>habits := Map_new (map (\<lambda>h. (id' h, h)) hs')\<rparr>)))
                     | _ \<Rightarrow> (Rejected (Error (must_be_array (filePath s))), s))
                | _ \<Rightarrow> (Rejected (Error (must_be_array (filePath s))), s))))"

definition create :: "string \<Rightarrow> disk \<Rightarrow> unit outcome \<times> state" where
  "create path d = load \<lparr>habits = [], filePath = path, disk = d\<rparr>"

definition save :: "state \<Rightarrow> unit outcome \<times> state" where
  "save s =
     (let data = \<lparr>habits_of = Map_values (habits s)\<rparr>;
          json = JSON_stringify data;
          tmp = filePath s @ ''.tmp''
      in
        case mkdir (disk s) of
          Inl e \<Rightarrow> (Rejected e, s)
        | Inr d1 \<Rightarrow>
            (case writeFile d1 tmp json of
               Inl e \<Rightarrow> (Rejected e, s\<lparr>disk := d1\<rparr>)
             | Inr d2 \<Rightarrow>
                 (case rename d2 tmp (filePath s) of
                    Inl e \<Rightarrow> (Rejected e, s\<lparr>disk := d2\<rparr>)
                  | Inr d3 \<Rightarrow> (Resolved (), s\<lparr>disk := d3\<rparr>))))"

text \<open>
  \<open>and_then\<close> is \<^verbatim>\<open>await this.save(); return v\<close>: the value once the save resolved,
  the save's rejection otherwise.
\<close>

fun and_then :: "unit outcome \<times> state \<Rightarrow> 'a \<Rightarrow> 'a outcome \<times> state" where
  "and_then (Resolved u, s) v = (Resolved v, s)"
| "and_then (Rejected e, s) v = (Rejected e, s)"
| "and_then (Untyped, s) v = (Untyped, s)"

text \<open>
  \<^verbatim>\<open>addHabit\<close>; \<open>uuid\<close> is what \<^verbatim>\<open>randomUUID()\<close> returns and \<open>now\<close> what
  \<^verbatim>\<open>new Date().toISOString()\<close> returns at this call.
\<close>

definition new_Habit :: "HabitAttrs \<Rightarrow> string \<Rightarrow> string \<Rightarrow> Habit" where
  "new_Habit attrs uuid now =
     \<lparr>id' = (case a_id attrs of Some i \<Rightarrow> i | None \<Rightarrow> uuid),
      name = a_name attrs,
      description = a_description attrs,
      frequency = a_frequency attrs,
      completions = (case a_completions attrs of Some cs \<Rightarrow> cs | None \<Rightarrow> []),
      createdAt = (case a_createdAt attrs of Some t \<Rightarrow> t | None \<Rightarrow> now)\<rparr>"

definition addHabit :: "HabitAttrs \<Rightarrow> string \<Rightarrow> string \<Rightarrow> state \<Rightarrow> Habit outcome \<times> state" where
  "addHabit attrs uuid now s =
     (let habit = new_Habit attrs uuid now;
          s1 = s\<lparr>habits := Map_set (habits s) (id' habit) habit\<rparr>
      in and_then (save s1) habit)"

definition getHabit :: "string \<Rightarrow> state \<Rightarrow> Habit option" where
  "getHabit i s = Map_get (habits s) i"

definition getAllHabits :: "state \<Rightarrow> Habit list" where
  "getAllHabits s = Map_values (habits s)"

text \<open>The object spread \<^verbatim>\<open>{ ...existing, ...patch }\<close>.\<close>

definition spread :: "Habit \<Rightarrow> HabitPatch \<Rightarrow> Habit" where
  "spread existing patch =
     \<lparr>id' = (case p_id patch of Some i \<Rightarrow> i | None \<Rightarrow> id' existing),
      name = (case p_name patch of Some n \<Rightarrow> n | None \<Rightarrow> name existing),
      description = (case p_description patch of Some d \<Rightarrow> d | None \<Rightarrow> description existing),
      frequency = (case p_frequency patch of Some f \<Rightarrow> f | None \<Rightarrow> frequency existing),
      completions = (case p_completions patch of Some cs \<Rightarrow> cs | None \<Rightarrow> completions existing),
      createdAt = (case p_createdAt patch of Some t \<Rightarrow> t | None \<Rightarrow> createdAt existing)\<rparr>"

definition updateHabit :: "string \<Rightarrow> HabitPatch \<Rightarrow> state \<Rightarrow> Habit outcome \<times> state" where
  "updateHabit i patch s =
     (case Map_get (habits s) i of
        None \<Rightarrow> (Rejected (Error (''Habit not found: '' @ i)), s)
      | Some existing \<Rightarrow>
          (let updated = (spread existing patch)\<lparr>id' := i\<rparr>;
               s1 = s\<lparr>habits := Map_set (habits s) i updated\<rparr>
           in and_then (save s1) updated))"

definition deleteHabit :: "string \<Rightarrow> state \<Rightarrow> bool outcome \<times> state" where
  "deleteHabit i s =
     (if \<not> Map_has (habits s) i then (Resolved False, s)
      else
        (let s1 = s\<lparr>habits := Map_delete (habits s) i\<rparr>
         in and_then (save s1) True))"

text \<open>
  \<^verbatim>\<open>logCompletion\<close>: the \<^verbatim>\<open>push\<close> changes the record held under \<open>i\<close> where it stands.
\<close>

definition logCompletion :: "string \<Rightarrow> string \<Rightarrow> state \<Rightarrow> unit outcome \<times> state" where
  "logCompletion i date s =
     (case Map_get (habits s) i of
        None \<Rightarrow> (Rejected (Error (''Habit not found: '' @ i)), s)
      | Some habit \<Rightarrow>
          (if date \<notin> set (completions habit) then
             (let s1 = s\<lparr>habits :=
                         Map_set (habits s) i
                           (habit\<lparr>completions := completions habit @ [date]\<rparr>)\<rparr>
              in and_then (save s1) ())
           else (Resolved (), s)))"

section \<open>Predicates and sample states of the statements\<close>

text \<open>The three calls of \<^verbatim>\<open>save\<close> all succeed on this disk.\<close>

definition no_write_fault :: "disk \<Rightarrow> bool" where
  "no_write_fault d = (fault d Mkdir = None \<and> fault d WriteFile = None \<and> fault d Rename = None)"

text \<open>
  The document at the store's path is the current mapping's, and no temporary file is
  left beside it.
\<close>

definition persisted :: "state \<Rightarrow> bool" where
  "persisted s =
     (files (disk s) (filePath s) = Some (JSON_stringify \<lparr>habits_of = Map_values (habits s)\<rparr>)
      \<and> files (disk s) (filePath s @ ''.tmp'') = None)"

text \<open>
  The invariant of the mapping: a \<^verbatim>\<open>Map\<close> holds each key once, and the store files
  every record under its own \<^verbatim>\<open>id\<close>.
\<close>

definition keyed_by_id :: "habit_map \<Rightarrow> bool" where
  "keyed_by_id m = (distinct (map fst m) \<and> list_all (\<lambda>(k, h). id' h = k) m)"

text \<open>No record of the mapping lists a completion date twice.\<close>

definition no_duplicates :: "habit_map \<Rightarrow> bool" where
  "no_duplicates m = list_all (\<lambda>(k, h). distinct (completions h)) m"

text \<open>Sample states: an empty disk without faults, and the record of the test suite.\<close>

definition blank_disk :: disk where
  "blank_disk = \<lparr>files = Map.empty, fault = (\<lambda>c. None)\<rparr>"

definition run :: Habit where
  "run = \<lparr>id' = ''abc'', name = ''Run'', description = None, frequency = Daily,
          completions = [''2024-01-01''], createdAt = ''2024-01-01T00:00:00Z''\<rparr>"

definition run_store :: state where
  "run_store = \<lparr>habits = [(''abc'', run)], filePath = ''habits.json'', disk = blank_disk\<rparr>"

definition blank_store :: state where
  "blank_store = \<lparr>habits = [], filePath = ''habits.json'', disk = blank_disk\<rparr>"

text \<open>
  Sample arguments: a habit added with its completions given, one date twice; a patch
  that sets \<^verbatim>\<open>createdAt\<close>; a patch that renames, and also carries an \<^verbatim>\<open>id\<close>.
\<close>

definition dup_attrs :: HabitAttrs where
  "dup_attrs = \<lparr>a_id = Some ''abc'', a_name = ''Journal'', a_description = None,
                 a_frequency = Daily,
                 a_completions = Some [''2024-03-15'', ''2024-03-15''],
                 a_createdAt = None\<rparr>"

definition dup_habit :: Habit where
  "dup_habit = \<lparr>id' = ''abc'', name = ''Journal'', description = None, frequency = Daily,
                 completions = [''2024-03-15'', ''2024-03-15''],
                 createdAt = ''2024-03-01T00:00:00Z''\<rparr>"

definition redate :: HabitPatch where
  "redate = \<lparr>p_id = None, p_name = None, p_description = None, p_frequency = None,
              p_completions = None, p_createdAt = Some ''2030-01-01T00:00:00Z''\<rparr>"

definition rename_patch :: HabitPatch where
  "rename_patch = \<lparr>p_id = Some ''other'', p_name = Some ''Swim laps'', p_description = None,
                    p_frequency = Some Weekly, p_completions = None, p_createdAt = None\<rparr>"

text \<open>
  Sample documents: a file that holds the JSON text \<^verbatim>\<open>null\<close>, and a file whose two
  records share an id.
\<close>

definition null_store :: state where
  "null_store = \<lparr>habits = [], filePath = ''habits.json'',
                  disk = \<lparr>files = [''habits.json'' \<mapsto> JSON_text JNull], fault = (\<lambda>c. None)\<rparr>\<rparr>"

definition walk :: Habit where
  "walk = \<lparr>id' = ''abc'', name = ''Walk'', description = Some ''round the park'',
           frequency = Weekly, completions = [], createdAt = ''2024-02-01T00:00:00Z''\<rparr>"

definition twice_store :: state where
  "twice_store = \<lparr>habits = [], filePath = ''habits.json'',
     disk = \<lparr>files = [''habits.json'' \<mapsto> JSON_stringify \<lparr>habits_of = [run, walk]\<rparr>],
             fault = (\<lambda>c. None)\<rparr>\<rparr>"

text \<open>Sample arguments of \<^verbatim>\<open>addHabit\<close>: without an id, and with the id of \<open>run\<close>.\<close>

definition meditate :: HabitAttrs where
  "meditate = \<lparr>a_id = None, a_name = ''Meditate'', a_description = None,
                a_frequency = Daily, a_completions = None, a_createdAt = None\<rparr>"

definition run_again :: HabitAttrs where
  "run_again = \<lparr>a_id = Some ''abc'', a_name = ''Run again'', a_description = Some ''10 km'',
                 a_frequency = Weekly, a_completions = None, a_createdAt = None\<rparr>"

section \<open>Properties\<close>

subsection \<open>Saving, decoding and the operations of the mapping\<close>

lemma save_no_fault:
  assumes "no_write_fault (disk s)"
  shows "save s = (Resolved (),
           s\<lparr>disk := (disk s)\<lparr>files := (files (disk s))
                (filePath s @ ''.tmp'' := None,
                 filePath s \<mapsto> JSON_stringify \<lparr>habits_of = Map_values (habits s)\<rparr>)\<rparr>\<rparr>)"
  using assms
  by (simp add: save_def no_write_fault_def mkdir_def writeFile_def rename_def Let_def)

lemma save_habits: "habits (snd (save s)) = habits s"
  by (simp add: save_def mkdir_def writeFile_def rename_def Let_def split: option.splits)

lemma save_filePath: "filePath (snd (save s)) = filePath s"
  by (simp add: save_def mkdir_def writeFile_def rename_def Let_def split: option.splits)

lemma those_as_string: "those (map (as_string \<circ> JString) cs) = Some cs"
  by (induction cs) simp_all

lemma as_Habit_json: "as_Habit (Habit_json h) = Some h"
  by (cases h; cases "description h"; cases "frequency h")
     (simp_all add: Habit_json_def Habit_keys_def as_frequency_def those_as_string)

lemma those_as_Habit: "those (map (as_Habit \<circ> Habit_json) hs) = Some hs"
  by (induction hs) (simp_all add: as_Habit_json)

lemma Habit_json_not_null: "Habit_json h \<noteq> JNull"
  by (simp add: Habit_json_def)


lemma foldl_set_snoc:
  "foldl (\<lambda>m (k, v). Map_set m k v) m0 (es @ [(k, v)]) =
     AList.update k v (foldl (\<lambda>m (k, v). Map_set m k v) m0 es)"
  by (simp add: Map_set_def)

lemma map_of_Map_new:
  "map_of (Map_new (map (\<lambda>h. (id' h, h)) hs)) k =
     (if filter (\<lambda>h. id' h = k) hs = [] then None
      else Some (last (filter (\<lambda>h. id' h = k) hs)))"
  unfolding Map_new_def
proof (induction hs rule: rev_induct)
  case Nil
  show ?case by simp
next
  case (snoc h hs)
  show ?case
    using snoc.IH
    by (simp add: Map_set_def AList.update_conv')
qed

lemma keys_Map_new:
  "set (map fst (Map_new (map (\<lambda>h. (id' h, h)) hs))) = id' ` set hs"
  unfolding Map_new_def
  by (induction hs rule: rev_induct) (auto simp add: Map_set_def AList.dom_update)

lemma list_all_update:
  "list_all P m \<Longrightarrow> P (k, v) \<Longrightarrow> list_all P (AList.update k v m)"
  by (induction m) auto

lemma list_all_delete: "list_all P m \<Longrightarrow> list_all P (AList.delete k m)"
  by (induction m) auto

lemma keyed_by_id_update:
  "keyed_by_id m \<Longrightarrow> id' h = k \<Longrightarrow> keyed_by_id (AList.update k h m)"
  unfolding keyed_by_id_def
  by (simp add: AList.distinct_update list_all_update)

lemma keyed_by_id_delete: "keyed_by_id m \<Longrightarrow> keyed_by_id (AList.delete k m)"
  unfolding keyed_by_id_def
  by (simp add: AList.distinct_delete list_all_delete)

lemma keyed_by_id_Map_new: "keyed_by_id (Map_new (map (\<lambda>h. (id' h, h)) hs))"
  unfolding Map_new_def
  by (induction hs rule: rev_induct)
     (simp_all add: keyed_by_id_update Map_set_def, simp add: keyed_by_id_def)

lemma foldl_set_fresh:
  "distinct (map fst (m0 @ es)) \<Longrightarrow>
     foldl (\<lambda>m (k, v). Map_set m k v) m0 es = m0 @ es"
proof (induction es arbitrary: m0)
  case Nil
  show ?case by simp
next
  case (Cons e es)
  obtain k v where e: "e = (k, v)" by (cases e)
  from Cons.prems have "k \<notin> set (map fst m0)" by (auto simp: e)
  then have upd: "AList.update k v m0 = m0 @ [(k, v)]"
    by (induction m0) auto
  from Cons.prems have "distinct (map fst ((m0 @ [(k, v)]) @ es))" by (simp add: e)
  from Cons.IH [OF this] show ?case by (simp add: e Map_set_def upd)
qed

lemma Map_new_values:
  assumes "keyed_by_id m"
  shows "Map_new (map (\<lambda>h. (id' h, h)) (Map_values m)) = m"
proof -
  have "list_all (\<lambda>(k, h). id' h = k) m \<Longrightarrow> map (\<lambda>h. (id' h, h)) (map snd m) = m"
    by (induction m) auto
  then have eq: "map (\<lambda>h. (id' h, h)) (map snd m) = m"
    using assms by (simp only: keyed_by_id_def)
  have "distinct (map fst ([] @ m))" using assms by (simp add: keyed_by_id_def)
  from foldl_set_fresh [OF this] show ?thesis
    by (simp only: Map_new_def Map_values_def eq append_Nil)
qed

subsection \<open>The document round-trips\<close>

lemma save_resolved:
  assumes "save s = (Resolved (), s1)"
  shows "habits s1 = habits s" and "filePath s1 = filePath s"
    and "files (disk s1) (filePath s) = Some (JSON_stringify \<lparr>habits_of = Map_values (habits s)\<rparr>)"
    and "files (disk s1) (filePath s @ ''.tmp'') = None"
  using assms
  by (auto simp add: save_def mkdir_def writeFile_def rename_def Let_def
      split: option.splits if_splits)

lemma load_document:
  assumes "files (disk s) (filePath s) = Some (JSON_stringify \<lparr>habits_of = hs\<rparr>)"
    and "fault (disk s) ReadFile = None"
  shows "load s = (Resolved (), s\<lparr>habits := Map_new (map (\<lambda>h. (id' h, h)) hs)\<rparr>)"
proof -
  have "JNull \<notin> set (map Habit_json hs)"
    by (auto simp add: Habit_json_def)
  then show ?thesis
    using assms
    by (simp add: load_def readFile_def JSON_stringify_def HabitsData_json_def those_as_Habit)
qed

text \<open>
  C1. Saving a mapping and loading the document written rebuilds the mapping: the same
  ids in the same order, each with the record it had. The mapping is any mapping the
  store can hold (each key once, each record under its own id); \<open>m\<close> is whatever
  the loading store held before.
\<close>

theorem save_load_roundtrip:
  assumes "keyed_by_id (habits s)"
    and "save s = (Resolved (), s1)"
    and "fault (disk s1) ReadFile = None"
  shows "habits s1 = habits s \<and> load (s1\<lparr>habits := m\<rparr>) = (Resolved (), s1)"
proof -
  note r = save_resolved [OF assms(2)]
  have "load (s1\<lparr>habits := m\<rparr>) =
          (Resolved (), s1\<lparr>habits := m, habits := Map_new (map (\<lambda>h. (id' h, h)) (Map_values (habits s)))\<rparr>)"
    using r assms(3) by (intro load_document) simp_all
  also have "\<dots> = (Resolved (), s1)"
    using r(1) by (simp add: Map_new_values [OF assms(1)])
  finally show ?thesis using r(1) by simp
qed

theorem save_load_roundtrip_witness:
  "keyed_by_id (habits run_store)
   \<and> save run_store = (Resolved (), snd (save run_store))
   \<and> habits (snd (save run_store)) = [(''abc'', run)]
   \<and> load ((snd (save run_store))\<lparr>habits := []\<rparr>) = (Resolved (), snd (save run_store))"
proof -
  have nf: "no_write_fault (disk run_store)"
    by (simp add: no_write_fault_def run_store_def blank_disk_def)
  have k: "keyed_by_id (habits run_store)"
    by (simp add: keyed_by_id_def run_store_def run_def)
  have sv: "save run_store = (Resolved (), snd (save run_store))"
    by (simp add: save_no_fault [OF nf])
  have rd: "fault (disk (snd (save run_store))) ReadFile = None"
    unfolding save_no_fault [OF nf] by (simp add: run_store_def blank_disk_def)
  from save_load_roundtrip [OF k sv rd, of "[]"] k sv show ?thesis
    by (simp add: run_store_def)
qed

subsection \<open>Saving from a method\<close>

lemma snd_and_then: "snd (and_then r v) = snd r"
  by (cases r; cases "fst r") auto

lemma save_persists:
  assumes "no_write_fault (disk s)"
  shows "fst (save s) = Resolved ()" and "habits (snd (save s)) = habits s"
    and "filePath (snd (save s)) = filePath s" and "persisted (snd (save s))"
    and "fault (disk (snd (save s))) = fault (disk s)"
  by (simp_all add: save_no_fault [OF assms] persisted_def)

lemma and_then_save:
  assumes "no_write_fault (disk s)"
  shows "and_then (save s) v = (Resolved v, snd (save s))"
  using save_persists(1) [OF assms] by (cases "save s") simp

lemma getHabit_after_set:
  "getHabit i (snd (and_then (save (s\<lparr>habits := Map_set (habits s) i h\<rparr>)) v)) = Some h"
  by (simp add: snd_and_then save_habits getHabit_def Map_get_def Map_set_def AList.update_conv')

subsection \<open>Logging a completion\<close>

text \<open>
  C2, as stated, fails: a habit added with a date listed twice keeps both entries, and
  logging that date twice more changes nothing, so the date does not appear exactly once.
\<close>

theorem logCompletion_twice_counterexample:
  "addHabit dup_attrs ''u'' ''2024-03-01T00:00:00Z'' blank_store
     = (Resolved dup_habit, snd (addHabit dup_attrs ''u'' ''2024-03-01T00:00:00Z'' blank_store))
   \<and> getHabit ''abc''
        (snd (logCompletion ''abc'' ''2024-03-15''
          (snd (logCompletion ''abc'' ''2024-03-15''
            (snd (addHabit dup_attrs ''u'' ''2024-03-01T00:00:00Z'' blank_store))))))
       = Some dup_habit
   \<and> count_list (completions dup_habit) ''2024-03-15'' = 2"
  by (simp add: addHabit_def logCompletion_def new_Habit_def dup_attrs_def dup_habit_def
      blank_store_def blank_disk_def save_def mkdir_def writeFile_def rename_def
      Map_set_def Map_get_def getHabit_def Let_def)

text \<open>
  C2, amended. \<^verbatim>\<open>logCompletion\<close> on an id that is not in the mapping rejects with
  "Habit not found" and changes nothing. On a stored habit it changes nothing when the
  date is already listed (mapping and disk as before); otherwise it appends the date to
  that habit's completions, and when the storage layer does not fail it resolves with
  the collection persisted. After two calls with the same date, the date is listed
  \<open>max 1 n\<close> times, where \<open>n\<close> is how often it was listed before: exactly once
  whenever it was listed at most once before.
\<close>

theorem logCompletion_contract:
  "(getHabit i s = None \<longrightarrow>
      logCompletion i d s = (Rejected (Error (''Habit not found: '' @ i)), s))
   \<and> (\<forall>h. getHabit i s = Some h \<longrightarrow>
        (d \<in> set (completions h) \<longrightarrow> logCompletion i d s = (Resolved (), s))
      \<and> (d \<notin> set (completions h) \<longrightarrow>
           getHabit i (snd (logCompletion i d s))
             = Some (h\<lparr>completions := completions h @ [d]\<rparr>)
         \<and> (no_write_fault (disk s) \<longrightarrow>
              fst (logCompletion i d s) = Resolved ()
            \<and> persisted (snd (logCompletion i d s))))
      \<and> (\<exists>h2. getHabit i (snd (logCompletion i d (snd (logCompletion i d s)))) = Some h2
            \<and> count_list (completions h2) d = max 1 (count_list (completions h) d)))"
proof (intro conjI allI impI)
  assume "getHabit i s = None"
  then show "logCompletion i d s = (Rejected (Error (''Habit not found: '' @ i)), s)"
    by (simp add: logCompletion_def getHabit_def)
next
  fix h assume "getHabit i s = Some h" "d \<in> set (completions h)"
  then show "logCompletion i d s = (Resolved (), s)"
    by (simp add: logCompletion_def getHabit_def)
next
  fix h assume h: "getHabit i s = Some h" and d: "d \<notin> set (completions h)"
  have eq: "logCompletion i d s =
      and_then (save (s\<lparr>habits := Map_set (habits s) i (h\<lparr>completions := completions h @ [d]\<rparr>)\<rparr>)) ()"
    using h d by (simp add: logCompletion_def getHabit_def)
  show "getHabit i (snd (logCompletion i d s)) = Some (h\<lparr>completions := completions h @ [d]\<rparr>)"
    unfolding eq by (rule getHabit_after_set)
  assume nf: "no_write_fault (disk s)"
  then have nf': "no_write_fault (disk (s\<lparr>habits := Map_set (habits s) i (h\<lparr>completions := completions h @ [d]\<rparr>)\<rparr>))"
    by simp
  show "fst (logCompletion i d s) = Resolved ()"
    unfolding eq and_then_save [OF nf'] by simp
  show "persisted (snd (logCompletion i d s))"
    unfolding eq and_then_save [OF nf'] using save_persists(4) [OF nf'] by simp
next
  fix h assume h: "getHabit i s = Some h"
  show "\<exists>h2. getHabit i (snd (logCompletion i d (snd (logCompletion i d s)))) = Some h2
            \<and> count_list (completions h2) d = max 1 (count_list (completions h) d)"
  proof (cases "d \<in> set (completions h)")
    case True
    then have "logCompletion i d s = (Resolved (), s)"
      using h by (simp add: logCompletion_def getHabit_def)
    moreover have "count_list (completions h) d \<noteq> 0"
      using True by (simp add: count_list_0_iff)
    ultimately show ?thesis using h by (simp add: max_def)
  next
    case False
    let ?h1 = "h\<lparr>completions := completions h @ [d]\<rparr>"
    let ?s1 = "snd (logCompletion i d s)"
    have eq: "logCompletion i d s =
        and_then (save (s\<lparr>habits := Map_set (habits s) i ?h1\<rparr>)) ()"
      using h False by (simp add: logCompletion_def getHabit_def)
    have g1: "getHabit i ?s1 = Some ?h1"
      unfolding eq by (rule getHabit_after_set)
    then have "logCompletion i d ?s1 = (Resolved (), ?s1)"
      by (simp add: logCompletion_def getHabit_def)
    moreover have "count_list (completions h) d = 0"
      using False by (simp add: count_list_0_iff)
    ultimately show ?thesis using g1 by simp
  qed
qed

theorem logCompletion_contract_witness:
  "getHabit ''ghost'' run_store = None
   \<and> logCompletion ''ghost'' ''2024-03-15'' run_store
       = (Rejected (Error ''Habit not found: ghost''), run_store)
   \<and> getHabit ''abc'' run_store = Some run
   \<and> ''2024-01-01'' \<in> set (completions run)
   \<and> logCompletion ''abc'' ''2024-01-01'' run_store = (Resolved (), run_store)
   \<and> ''2024-03-15'' \<notin> set (completions run)
   \<and> no_write_fault (disk run_store)
   \<and> getHabit ''abc'' (snd (logCompletion ''abc'' ''2024-03-15'' run_store))
       = Some (run\<lparr>completions := [''2024-01-01'', ''2024-03-15'']\<rparr>)
   \<and> fst (logCompletion ''abc'' ''2024-03-15'' run_store) = Resolved ()
   \<and> persisted (snd (logCompletion ''abc'' ''2024-03-15'' run_store))"
proof -
  have g: "getHabit ''ghost'' run_store = None" "getHabit ''abc'' run_store = Some run"
    by (simp_all add: getHabit_def Map_get_def run_store_def)
  have c: "''2024-01-01'' \<in> set (completions run)" "''2024-03-15'' \<notin> set (completions run)"
    by (simp_all add: run_def)
  have nf: "no_write_fault (disk run_store)"
    by (simp add: no_write_fault_def run_store_def blank_disk_def)
  have r: "run\<lparr>completions := completions run @ [''2024-03-15'']\<rparr>
             = run\<lparr>completions := [''2024-01-01'', ''2024-03-15'']\<rparr>"
    by (simp add: run_def)
  show ?thesis
    using logCompletion_contract [of "''ghost''" run_store "''2024-03-15''"]
      logCompletion_contract [of "''abc''" run_store "''2024-01-01''"]
      logCompletion_contract [of "''abc''" run_store "''2024-03-15''"]
      g c nf r
    by simp
qed

subsection \<open>Updating a habit\<close>

text \<open>
  C3. \<^verbatim>\<open>updateHabit\<close> on an id that is not in the mapping rejects with "Habit not
  found" and changes nothing. On a stored habit, when the storage layer does not fail, it
  resolves with the old record overlaid by the properties the patch carries, except that
  \<^verbatim>\<open>id\<close> is the id asked for (the old record's own id in every mapping the store can
  hold) whatever the patch says; that record stands in the mapping in place of the old
  one, the other records are as before, and the collection is persisted.
\<close>

theorem updateHabit_contract:
  "(getHabit i s = None \<longrightarrow>
      updateHabit i p s = (Rejected (Error (''Habit not found: '' @ i)), s))
   \<and> (\<forall>h. getHabit i s = Some h \<and> no_write_fault (disk s) \<longrightarrow>
        (\<exists>u s'. updateHabit i p s = (Resolved u, s')
           \<and> id' u = i
           \<and> name u = (case p_name p of Some n \<Rightarrow> n | None \<Rightarrow> name h)
           \<and> description u = (case p_description p of Some x \<Rightarrow> x | None \<Rightarrow> description h)
           \<and> frequency u = (case p_frequency p of Some f \<Rightarrow> f | None \<Rightarrow> frequency h)
           \<and> completions u = (case p_completions p of Some cs \<Rightarrow> cs | None \<Rightarrow> completions h)
           \<and> createdAt u = (case p_createdAt p of Some t \<Rightarrow> t | None \<Rightarrow> createdAt h)
           \<and> (keyed_by_id (habits s) \<longrightarrow> id' u = id' h)
           \<and> getHabit i s' = Some u
           \<and> map fst (habits s') = map fst (habits s)
           \<and> (\<forall>j. j \<noteq> i \<longrightarrow> getHabit j s' = getHabit j s)
           \<and> persisted s'))"
proof (intro conjI allI impI)
  assume "getHabit i s = None"
  then show "updateHabit i p s = (Rejected (Error (''Habit not found: '' @ i)), s)"
    by (simp add: updateHabit_def getHabit_def)
next
  fix h assume a: "getHabit i s = Some h \<and> no_write_fault (disk s)"
  let ?u = "(spread h p)\<lparr>id' := i\<rparr>"
  let ?s1 = "s\<lparr>habits := Map_set (habits s) i ?u\<rparr>"
  from a have nf: "no_write_fault (disk ?s1)" by simp
  have eq: "updateHabit i p s = (Resolved ?u, snd (save ?s1))"
    using a and_then_save [OF nf] by (simp add: updateHabit_def getHabit_def Let_def)
  have mem: "i \<in> set (map fst (habits s))"
    using a by (auto simp add: getHabit_def Map_get_def dest: map_of_SomeD intro: rev_image_eqI)
  have key: "keyed_by_id (habits s) \<longrightarrow> id' h = i"
  proof
    assume "keyed_by_id (habits s)"
    moreover from a have "(i, h) \<in> set (habits s)"
      by (auto simp add: getHabit_def Map_get_def dest: map_of_SomeD)
    ultimately show "id' h = i"
      by (auto simp add: keyed_by_id_def list_all_iff)
  qed
  show "\<exists>u s'. updateHabit i p s = (Resolved u, s')
           \<and> id' u = i
           \<and> name u = (case p_name p of Some n \<Rightarrow> n | None \<Rightarrow> name h)
           \<and> description u = (case p_description p of Some x \<Rightarrow> x | None \<Rightarrow> description h)
           \<and> frequency u = (case p_frequency p of Some f \<Rightarrow> f | None \<Rightarrow> frequency h)
           \<and> completions u = (case p_completions p of Some cs \<Rightarrow> cs | None \<Rightarrow> completions h)
           \<and> createdAt u = (case p_createdAt p of Some t \<Rightarrow> t | None \<Rightarrow> createdAt h)
           \<and> (keyed_by_id (habits s) \<longrightarrow> id' u = id' h)
           \<and> getHabit i s' = Some u
           \<and> map fst (habits s') = map fst (habits s)
           \<and> (\<forall>j. j \<noteq> i \<longrightarrow> getHabit j s' = getHabit j s)
           \<and> persisted s'"
  proof (intro exI conjI)
    show "updateHabit i p s = (Resolved ?u, snd (save ?s1))" by (rule eq)
    show "getHabit i (snd (save ?s1)) = Some ?u"
      by (simp add: save_habits getHabit_def Map_get_def Map_set_def AList.update_conv')
    show "map fst (habits (snd (save ?s1))) = map fst (habits s)"
      using mem by (simp add: save_habits Map_set_def AList.update_keys)
    show "\<forall>j. j \<noteq> i \<longrightarrow> getHabit j (snd (save ?s1)) = getHabit j s"
      by (simp add: save_habits getHabit_def Map_get_def Map_set_def AList.update_conv')
    show "persisted (snd (save ?s1))" by (rule save_persists(4) [OF nf])
    show "keyed_by_id (habits s) \<longrightarrow> id' ?u = id' h" using key by simp
  qed (simp_all add: spread_def)
qed

theorem updateHabit_contract_witness:
  "getHabit ''ghost'' run_store = None
   \<and> updateHabit ''ghost'' rename_patch run_store
       = (Rejected (Error ''Habit not found: ghost''), run_store)
   \<and> getHabit ''abc'' run_store = Some run
   \<and> no_write_fault (disk run_store)
   \<and> keyed_by_id (habits run_store)
   \<and> fst (updateHabit ''abc'' rename_patch run_store)
       = Resolved (run\<lparr>name := ''Swim laps'', frequency := Weekly\<rparr>)
   \<and> getHabit ''abc'' (snd (updateHabit ''abc'' rename_patch run_store))
       = Some (run\<lparr>name := ''Swim laps'', frequency := Weekly\<rparr>)
   \<and> persisted (snd (updateHabit ''abc'' rename_patch run_store))"
proof -
  have g: "getHabit ''ghost'' run_store = None" "getHabit ''abc'' run_store = Some run"
    by (simp_all add: getHabit_def Map_get_def run_store_def)
  have nf: "no_write_fault (disk run_store)"
    by (simp add: no_write_fault_def run_store_def blank_disk_def)
  have k: "keyed_by_id (habits run_store)"
    by (simp add: keyed_by_id_def run_store_def run_def)
  from updateHabit_contract [of "''abc''" run_store rename_patch] g nf
  obtain u s' where u: "updateHabit ''abc'' rename_patch run_store = (Resolved u, s')"
    "id' u = ''abc''" "name u = ''Swim laps''" "description u = description run"
    "frequency u = Weekly" "completions u = completions run" "createdAt u = createdAt run"
    "getHabit ''abc'' s' = Some u" "persisted s'"
    by (auto simp add: rename_patch_def)
  have "u = run\<lparr>name := ''Swim laps'', frequency := Weekly\<rparr>"
    using u(2-7) by (cases u) (simp add: run_def)
  with u(1,8,9) g nf k
    updateHabit_contract [of "''ghost''" run_store rename_patch]
  show ?thesis by simp
qed

text \<open>
  C4, as stated, fails for \<^verbatim>\<open>createdAt\<close>: the patch is a \<^verbatim>\<open>Partial<Habit>\<close> and the
  spread copies its \<^verbatim>\<open>createdAt\<close> over the old one; only \<^verbatim>\<open>id\<close> is set again
  afterwards.
\<close>

theorem updateHabit_createdAt_counterexample:
  "getHabit ''abc'' run_store = Some run
   \<and> updateHabit ''abc'' redate run_store
       = (Resolved (run\<lparr>createdAt := ''2030-01-01T00:00:00Z''\<rparr>),
          snd (updateHabit ''abc'' redate run_store))
   \<and> getHabit ''abc'' (snd (updateHabit ''abc'' redate run_store))
       = Some (run\<lparr>createdAt := ''2030-01-01T00:00:00Z''\<rparr>)
   \<and> createdAt (run\<lparr>createdAt := ''2030-01-01T00:00:00Z''\<rparr>) \<noteq> createdAt run"
  by (simp add: updateHabit_def spread_def redate_def run_store_def run_def blank_disk_def
      save_def mkdir_def writeFile_def rename_def Map_set_def Map_get_def getHabit_def Let_def)

lemma getHabit_keyed:
  assumes "keyed_by_id (habits s)" and "getHabit i s = Some h"
  shows "id' h = i"
proof -
  from assms(2) have "(i, h) \<in> set (habits s)"
    by (auto simp add: getHabit_def Map_get_def dest: map_of_SomeD)
  with assms(1) show ?thesis
    by (auto simp add: keyed_by_id_def list_all_iff)
qed

text \<open>
  C4, amended. In every mapping the store can hold, the record that \<^verbatim>\<open>updateHabit\<close>
  leaves under the id (and resolves with) has the id of the record before; its
  \<^verbatim>\<open>createdAt\<close> is the one before when the patch carries none, and the patch's
  otherwise.
\<close>

theorem updateHabit_preserves_identity:
  assumes "keyed_by_id (habits s)" and "getHabit i s = Some h"
  shows "\<exists>u. getHabit i (snd (updateHabit i p s)) = Some u
           \<and> id' u = id' h
           \<and> createdAt u = (case p_createdAt p of None \<Rightarrow> createdAt h | Some t \<Rightarrow> t)
           \<and> (\<forall>v. fst (updateHabit i p s) = Resolved v \<longrightarrow> v = u)"
proof -
  let ?u = "(spread h p)\<lparr>id' := i\<rparr>"
  let ?s1 = "s\<lparr>habits := Map_set (habits s) i ?u\<rparr>"
  have eq: "updateHabit i p s = and_then (save ?s1) ?u"
    using assms(2) by (simp add: updateHabit_def getHabit_def Let_def)
  have "getHabit i (snd (updateHabit i p s)) = Some ?u"
    unfolding eq by (rule getHabit_after_set)
  moreover have "id' ?u = id' h"
    using getHabit_keyed [OF assms] by simp
  moreover have "createdAt ?u = (case p_createdAt p of None \<Rightarrow> createdAt h | Some t \<Rightarrow> t)"
    by (simp add: spread_def)
  moreover have "\<forall>v. fst (updateHabit i p s) = Resolved v \<longrightarrow> v = ?u"
    unfolding eq by (cases "save ?s1"; cases "fst (save ?s1)") auto
  ultimately show ?thesis by blast
qed

theorem updateHabit_preserves_identity_witness:
  "keyed_by_id (habits run_store)
   \<and> getHabit ''abc'' run_store = Some run
   \<and> (\<exists>u. getHabit ''abc'' (snd (updateHabit ''abc'' rename_patch run_store)) = Some u
          \<and> id' u = ''abc''
          \<and> createdAt u = ''2024-01-01T00:00:00Z'')"
proof -
  have k: "keyed_by_id (habits run_store)"
    by (simp add: keyed_by_id_def run_store_def run_def)
  have g: "getHabit ''abc'' run_store = Some run"
    by (simp add: getHabit_def Map_get_def run_store_def)
  from updateHabit_preserves_identity [OF k g, of rename_patch] k g show ?thesis
    by (auto simp add: rename_patch_def run_def)
qed

subsection \<open>Loading\<close>

text \<open>
  C6 at a file that holds the JSON text \<^verbatim>\<open>null\<close>: the file exists and reads, the
  text parses, and the parsed value has no \<^verbatim>\<open>habits\<close> array; the read of
  \<^verbatim>\<open>data.habits\<close> raises a \<^verbatim>\<open>TypeError\<close>, which is what \<^verbatim>\<open>load\<close> rejects with,
  not an error that says "Corrupt data file" and names the path.
\<close>

theorem load_null_document:
  "readFile (disk null_store) (filePath null_store) = Inr (JSON_text JNull)
   \<and> load null_store = (Rejected TypeError, null_store)"
  by (simp add: load_def readFile_def null_store_def)

text \<open>
  The rest of the contract of \<^verbatim>\<open>load\<close> holds: a missing file gives the empty mapping
  and leaves the disk as it is; a text that is not JSON, and a parsed value other than
  \<^verbatim>\<open>null\<close> whose \<^verbatim>\<open>habits\<close> is not an array, reject with an error that starts
  "Corrupt data file at" and the path; any other failure of the read is rejected with as
  it came.
\<close>

lemma load_missing_file:
  assumes "files (disk s) (filePath s) = None" and "fault (disk s) ReadFile = None"
  shows "load s = (Resolved (), s\<lparr>habits := []\<rparr>)"
  using assms by (simp add: load_def readFile_def)

lemma load_invalid_JSON:
  assumes "files (disk s) (filePath s) = Some Not_JSON" and "fault (disk s) ReadFile = None"
  shows "load s = (Rejected (Error (''Corrupt data file at '' @ filePath s @ '': invalid JSON'')), s)"
  using assms by (simp add: load_def readFile_def invalid_JSON_def)

lemma load_habits_not_array:
  assumes "files (disk s) (filePath s) = Some (JSON_text v)" and "fault (disk s) ReadFile = None"
    and "v \<noteq> JNull"
    and "\<And>kvs hs. v = JObject kvs \<Longrightarrow> map_of kvs ''habits'' \<noteq> Some (JArray hs)"
  shows "\<exists>rest. load s = (Rejected (Error (''Corrupt data file at '' @ filePath s @ rest)), s)"
proof (cases v)
  case (JObject kvs)
  with assms(4) have "\<And>hs. map_of kvs ''habits'' \<noteq> Some (JArray hs)" by simp
  then show ?thesis
    using assms(1,2) JObject
    by (auto simp add: load_def readFile_def must_be_array_def split: option.splits json.splits)
qed (use assms in \<open>auto simp add: load_def readFile_def must_be_array_def\<close>)

lemma load_read_failure:
  assumes "fault (disk s) ReadFile = Some c" and "c \<noteq> ''ENOENT''"
  shows "load s = (Rejected (ErrnoException c), s)"
  using assms by (simp add: load_def readFile_def)

lemma those_map_Some: "those (map Some xs) = Some xs"
  by (induction xs) simp_all

lemma load_typed_document:
  assumes "files (disk s) (filePath s) = Some (JSON_text (JObject kvs))"
    and "map_of kvs ''habits'' = Some (JArray js)"
    and "map as_Habit js = map Some hs"
    and "fault (disk s) ReadFile = None"
  shows "load s = (Resolved (), s\<lparr>habits := Map_new (map (\<lambda>h. (id' h, h)) hs)\<rparr>)"
proof -
  have "None \<notin> set (map as_Habit js)"
    unfolding assms(3) by auto
  then have nn: "JNull \<notin> set js"
    by (auto simp add: image_iff)
  have th: "those (map as_Habit js) = Some hs"
    unfolding assms(3) by (rule those_map_Some)
  show ?thesis
    using assms(1,2,4) nn th by (simp add: load_def readFile_def)
qed

text \<open>
  C7. When the file holds a document whose \<^verbatim>\<open>habits\<close> array is a sequence \<open>hs\<close> of
  habit records and the read does not fail, \<^verbatim>\<open>load\<close> resolves with a mapping whose
  keys are the ids of \<open>hs\<close>, each once, and that maps every id to the last record of
  \<open>hs\<close> with that id: a later entry overwrites an earlier one with the same id.
\<close>

theorem load_last_write_wins:
  assumes "files (disk s) (filePath s) = Some (JSON_text (JObject kvs))"
    and "map_of kvs ''habits'' = Some (JArray js)"
    and "map as_Habit js = map Some hs"
    and "fault (disk s) ReadFile = None"
  shows "\<exists>m. load s = (Resolved (), s\<lparr>habits := m\<rparr>)
           \<and> keyed_by_id m
           \<and> set (map fst m) = id' ` set hs
           \<and> (\<forall>k. Map_get m k =
                 (if filter (\<lambda>h. id' h = k) hs = [] then None
                  else Some (last (filter (\<lambda>h. id' h = k) hs))))"
proof -
  let ?m = "Map_new (map (\<lambda>h. (id' h, h)) hs)"
  have "load s = (Resolved (), s\<lparr>habits := ?m\<rparr>)"
    using assms by (rule load_typed_document)
  then show ?thesis
    using keyed_by_id_Map_new [of hs] keys_Map_new [of hs] map_of_Map_new [of hs]
    by (intro exI [of _ ?m]) (simp add: Map_get_def)
qed

theorem load_last_write_wins_witness:
  "files (disk twice_store) (filePath twice_store)
     = Some (JSON_text (JObject [(''habits'', JArray [Habit_json run, Habit_json walk])]))
   \<and> map as_Habit [Habit_json run, Habit_json walk] = map Some [run, walk]
   \<and> id' run = id' walk
   \<and> fst (load twice_store) = Resolved ()
   \<and> getHabit ''abc'' (snd (load twice_store)) = Some walk
   \<and> getAllHabits (snd (load twice_store)) = [walk]"
proof -
  have f: "files (disk twice_store) (filePath twice_store)
     = Some (JSON_text (JObject [(''habits'', JArray [Habit_json run, Habit_json walk])]))"
    by (simp add: twice_store_def JSON_stringify_def HabitsData_json_def)
  have m: "map_of [(''habits'', JArray [Habit_json run, Habit_json walk])] ''habits''
             = Some (JArray [Habit_json run, Habit_json walk])"
    by simp
  have a: "map as_Habit [Habit_json run, Habit_json walk] = map Some [run, walk]"
    by (simp add: as_Habit_json)
  have r: "fault (disk twice_store) ReadFile = None"
    by (simp add: twice_store_def)
  have i: "id' run = id' walk" "id' walk = ''abc''"
    by (simp_all add: run_def walk_def)
  from load_last_write_wins [OF f m a r]
  obtain mp where mp: "load twice_store = (Resolved (), twice_store\<lparr>habits := mp\<rparr>)"
    "keyed_by_id mp" "set (map fst mp) = id' ` set [run, walk]"
    "\<And>k. Map_get mp k = (if filter (\<lambda>h. id' h = k) [run, walk] = [] then None
                  else Some (last (filter (\<lambda>h. id' h = k) [run, walk])))"
    by blast
  have g: "Map_get mp ''abc'' = Some walk"
    using mp(4) [of "''abc''"] i by simp
  have keys: "set (map fst mp) = {''abc''}"
    using mp(3) i by simp
  have "distinct (map fst mp)" using mp(2) by (simp add: keyed_by_id_def)
  with keys have "map fst mp = [''abc'']"
    by (cases mp; cases "tl mp") auto
  with g have "mp = [(''abc'', walk)]"
    by (cases mp) (auto simp add: Map_get_def)
  with mp(1) f a i show ?thesis
    by (simp add: getHabit_def getAllHabits_def Map_get_def Map_values_def)
qed

subsection \<open>Duplicate completion dates\<close>

lemma list_all_Map_new:
  "list_all P hs \<Longrightarrow> list_all (\<lambda>(k, h). P h) (Map_new (map (\<lambda>h. (id' h, h)) hs))"
  unfolding Map_new_def
  by (induction hs rule: rev_induct) (simp_all add: Map_set_def list_all_update)

lemma habits_and_then_save: "habits (snd (and_then (save s) v)) = habits s"
  by (simp add: snd_and_then save_habits)

lemma no_duplicates_set:
  "no_duplicates m \<Longrightarrow> distinct (completions h) \<Longrightarrow> no_duplicates (Map_set m k h)"
  by (simp add: no_duplicates_def Map_set_def list_all_update)

lemma no_duplicates_get:
  assumes "no_duplicates (habits s)" and "Map_get (habits s) i = Some h"
  shows "distinct (completions h)"
proof -
  from assms(2) have "(i, h) \<in> set (habits s)"
    by (auto simp add: Map_get_def dest: map_of_SomeD)
  with assms(1) show ?thesis
    by (auto simp add: no_duplicates_def list_all_iff)
qed

text \<open>
  C5, as stated, fails: \<^verbatim>\<open>addHabit\<close> stores the completions its caller gives as they
  are, here one date twice.
\<close>

theorem addHabit_duplicates_counterexample:
  "distinct (completions (new_Habit dup_attrs ''u'' ''2024-03-01T00:00:00Z'')) = False
   \<and> no_duplicates (habits blank_store)
   \<and> fst (addHabit dup_attrs ''u'' ''2024-03-01T00:00:00Z'' blank_store) = Resolved dup_habit
   \<and> habits (snd (addHabit dup_attrs ''u'' ''2024-03-01T00:00:00Z'' blank_store))
       = [(''abc'', dup_habit)]
   \<and> no_duplicates (habits (snd (addHabit dup_attrs ''u'' ''2024-03-01T00:00:00Z'' blank_store)))
       = False"
  by (simp add: addHabit_def new_Habit_def dup_attrs_def dup_habit_def no_duplicates_def
      blank_store_def blank_disk_def save_def mkdir_def writeFile_def rename_def
      Map_set_def Let_def)

text \<open>
  C5, amended. When no record of the mapping lists a date twice, none does after
  \<^verbatim>\<open>logCompletion\<close>; none does after \<^verbatim>\<open>addHabit\<close> or \<^verbatim>\<open>updateHabit\<close> provided the
  completions the caller passes (if any) list no date twice; and none does after
  \<^verbatim>\<open>load\<close> provided no record of the document lists a date twice.
\<close>

theorem completions_stay_distinct:
  assumes "no_duplicates (habits s)"
  shows "no_duplicates (habits (snd (logCompletion i d s)))
     \<and> ((\<forall>cs. a_completions attrs = Some cs \<longrightarrow> distinct cs) \<longrightarrow>
          no_duplicates (habits (snd (addHabit attrs uuid now s))))
     \<and> ((\<forall>cs. p_completions p = Some cs \<longrightarrow> distinct cs) \<longrightarrow>
          no_duplicates (habits (snd (updateHabit i p s))))
     \<and> (\<forall>kvs js hs.
          files (disk s) (filePath s) = Some (JSON_text (JObject kvs))
          \<and> map_of kvs ''habits'' = Some (JArray js)
          \<and> map as_Habit js = map Some hs
          \<and> list_all (\<lambda>h. distinct (completions h)) hs \<longrightarrow>
          no_duplicates (habits (snd (load s))))"
proof (intro conjI allI impI)
  show "no_duplicates (habits (snd (logCompletion i d s)))"
  proof (cases "Map_get (habits s) i")
    case None
    then show ?thesis using assms by (simp add: logCompletion_def)
  next
    case (Some h)
    show ?thesis
    proof (cases "d \<in> set (completions h)")
      case True
      then show ?thesis using assms Some by (simp add: logCompletion_def)
    next
      case False
      have "distinct (completions h @ [d])"
        using no_duplicates_get [OF assms Some] False by simp
      then have "no_duplicates (Map_set (habits s) i (h\<lparr>completions := completions h @ [d]\<rparr>))"
        using assms by (intro no_duplicates_set) simp_all
      then show ?thesis
        using Some False by (simp add: logCompletion_def Let_def habits_and_then_save)
    qed
  qed
next
  assume "\<forall>cs. a_completions attrs = Some cs \<longrightarrow> distinct cs"
  then have "distinct (completions (new_Habit attrs uuid now))"
    by (cases "a_completions attrs") (simp_all add: new_Habit_def)
  then show "no_duplicates (habits (snd (addHabit attrs uuid now s)))"
    using assms by (simp add: addHabit_def Let_def habits_and_then_save no_duplicates_set)
next
  assume p: "\<forall>cs. p_completions p = Some cs \<longrightarrow> distinct cs"
  show "no_duplicates (habits (snd (updateHabit i p s)))"
  proof (cases "Map_get (habits s) i")
    case None
    then show ?thesis using assms by (simp add: updateHabit_def)
  next
    case (Some h)
    have "distinct (completions ((spread h p)\<lparr>id' := i\<rparr>))"
      using p no_duplicates_get [OF assms Some]
      by (cases "p_completions p") (simp_all add: spread_def)
    then show ?thesis
      using assms Some
      by (simp add: updateHabit_def Let_def habits_and_then_save no_duplicates_set)
  qed
next
  fix kvs js hs
  assume a: "files (disk s) (filePath s) = Some (JSON_text (JObject kvs))
          \<and> map_of kvs ''habits'' = Some (JArray js)
          \<and> map as_Habit js = map Some hs
          \<and> list_all (\<lambda>h. distinct (completions h)) hs"
  show "no_duplicates (habits (snd (load s)))"
  proof (cases "fault (disk s) ReadFile")
    case None
    from a have "load s = (Resolved (), s\<lparr>habits := Map_new (map (\<lambda>h. (id' h, h)) hs)\<rparr>)"
      using None by (intro load_typed_document [where kvs = kvs and js = js]) simp_all
    moreover from a have "no_duplicates (Map_new (map (\<lambda>h. (id' h, h)) hs))"
      unfolding no_duplicates_def by (intro list_all_Map_new) simp
    ultimately show ?thesis by simp
  next
    case (Some c)
    then show ?thesis
      using assms by (simp add: load_def readFile_def no_duplicates_def)
  qed
qed

theorem completions_stay_distinct_witness:
  "no_duplicates (habits run_store)
   \<and> no_duplicates (habits (snd (logCompletion ''abc'' ''2024-03-15'' run_store)))
   \<and> a_completions meditate = None
   \<and> no_duplicates (habits (snd (addHabit meditate ''u-1'' ''2024-03-01T00:00:00Z'' run_store)))
   \<and> p_completions rename_patch = None
   \<and> no_duplicates (habits (snd (updateHabit ''abc'' rename_patch run_store)))
   \<and> no_duplicates (habits twice_store)
   \<and> list_all (\<lambda>h. distinct (completions h)) [run, walk]
   \<and> no_duplicates (habits (snd (load twice_store)))"
proof -
  have n: "no_duplicates (habits run_store)" "no_duplicates (habits twice_store)"
    by (simp_all add: no_duplicates_def run_store_def twice_store_def run_def)
  have c: "a_completions meditate = None" "p_completions rename_patch = None"
    by (simp_all add: meditate_def rename_patch_def)
  have f: "files (disk twice_store) (filePath twice_store)
     = Some (JSON_text (JObject [(''habits'', JArray [Habit_json run, Habit_json walk])]))"
    by (simp add: twice_store_def JSON_stringify_def HabitsData_json_def)
  have a: "map as_Habit [Habit_json run, Habit_json walk] = map Some [run, walk]"
    by (simp add: as_Habit_json)
  have d: "list_all (\<lambda>h. distinct (completions h)) [run, walk]"
    by (simp add: run_def walk_def)
  from completions_stay_distinct [OF n(1), of "''abc''" "''2024-03-15''" meditate "''u-1''"
      "''2024-03-01T00:00:00Z''" rename_patch]
  have r: "no_duplicates (habits (snd (logCompletion ''abc'' ''2024-03-15'' run_store)))"
    "no_duplicates (habits (snd (addHabit meditate ''u-1'' ''2024-03-01T00:00:00Z'' run_store)))"
    "no_duplicates (habits (snd (updateHabit ''abc'' rename_patch run_store)))"
    using c by simp_all
  from completions_stay_distinct [OF n(2), of "''abc''" "''2024-03-15''" meditate "''u-1''"
      "''2024-03-01T00:00:00Z''" rename_patch]
  have "no_duplicates (habits (snd (load twice_store)))"
    using f a d by (elim conjE allE [of _ "[(''habits'', JArray [Habit_json run, Habit_json walk])]"]
        allE [of _ "[Habit_json run, Habit_json walk]"] allE [of _ "[run, walk]"]) simp
  with n c d r show ?thesis by simp
qed

subsection \<open>Adding a habit\<close>

text \<open>
  C8. When the storage layer does not fail, \<^verbatim>\<open>addHabit\<close> resolves with a record that
  it has stored under its id and persisted, where: \<^verbatim>\<open>id\<close> is the caller's if given and
  the generated identifier otherwise (non-empty when the generator's output is);
  \<^verbatim>\<open>name\<close> and \<^verbatim>\<open>frequency\<close> are the caller's; \<^verbatim>\<open>completions\<close> is the caller's if
  given and empty otherwise; \<^verbatim>\<open>createdAt\<close> is the caller's if given and the current
  timestamp otherwise; \<^verbatim>\<open>description\<close> is there exactly when the caller gave one.
\<close>

theorem addHabit_contract:
  assumes "no_write_fault (disk s)"
  shows "\<exists>h s'. addHabit attrs uuid now s = (Resolved h, s')
           \<and> id' h = (case a_id attrs of Some i \<Rightarrow> i | None \<Rightarrow> uuid)
           \<and> (a_id attrs = None \<and> uuid \<noteq> [] \<longrightarrow> id' h \<noteq> [])
           \<and> name h = a_name attrs
           \<and> frequency h = a_frequency attrs
           \<and> completions h = (case a_completions attrs of Some cs \<Rightarrow> cs | None \<Rightarrow> [])
           \<and> createdAt h = (case a_createdAt attrs of Some t \<Rightarrow> t | None \<Rightarrow> now)
           \<and> description h = a_description attrs
           \<and> getHabit (id' h) s' = Some h
           \<and> (\<forall>j. j \<noteq> id' h \<longrightarrow> getHabit j s' = getHabit j s)
           \<and> persisted s'"
proof -
  let ?h = "new_Habit attrs uuid now"
  let ?s1 = "s\<lparr>habits := Map_set (habits s) (id' ?h) ?h\<rparr>"
  from assms have nf: "no_write_fault (disk ?s1)" by simp
  have eq: "addHabit attrs uuid now s = (Resolved ?h, snd (save ?s1))"
    using and_then_save [OF nf] by (simp add: addHabit_def Let_def)
  show ?thesis
  proof (intro exI conjI)
    show "addHabit attrs uuid now s = (Resolved ?h, snd (save ?s1))" by (rule eq)
    show "getHabit (id' ?h) (snd (save ?s1)) = Some ?h"
      by (simp add: save_habits getHabit_def Map_get_def Map_set_def AList.update_conv')
    show "\<forall>j. j \<noteq> id' ?h \<longrightarrow> getHabit j (snd (save ?s1)) = getHabit j s"
      by (simp add: save_habits getHabit_def Map_get_def Map_set_def AList.update_conv')
    show "persisted (snd (save ?s1))" by (rule save_persists(4) [OF nf])
  qed (simp_all add: new_Habit_def)
qed

theorem addHabit_contract_witness:
  "no_write_fault (disk blank_store)
   \<and> a_id meditate = None
   \<and> ''3f0c9a52-6f0e-4f19-9d3b-0a1b2c3d4e5f'' \<noteq> []
   \<and> fst (addHabit meditate ''3f0c9a52-6f0e-4f19-9d3b-0a1b2c3d4e5f'' ''2024-03-01T00:00:00Z''
            blank_store)
       = Resolved \<lparr>id' = ''3f0c9a52-6f0e-4f19-9d3b-0a1b2c3d4e5f'', name = ''Meditate'',
                   description = None, frequency = Daily, completions = [],
                   createdAt = ''2024-03-01T00:00:00Z''\<rparr>
   \<and> persisted (snd (addHabit meditate ''3f0c9a52-6f0e-4f19-9d3b-0a1b2c3d4e5f''
                        ''2024-03-01T00:00:00Z'' blank_store))"
proof -
  have nf: "no_write_fault (disk blank_store)"
    by (simp add: no_write_fault_def blank_store_def blank_disk_def)
  from addHabit_contract [OF nf, of meditate "''3f0c9a52-6f0e-4f19-9d3b-0a1b2c3d4e5f''"
      "''2024-03-01T00:00:00Z''"]
  obtain h s' where h:
    "addHabit meditate ''3f0c9a52-6f0e-4f19-9d3b-0a1b2c3d4e5f'' ''2024-03-01T00:00:00Z''
       blank_store = (Resolved h, s')"
    "id' h = ''3f0c9a52-6f0e-4f19-9d3b-0a1b2c3d4e5f''" "name h = ''Meditate''"
    "frequency h = Daily" "completions h = []" "createdAt h = ''2024-03-01T00:00:00Z''"
    "description h = None" "persisted s'"
    by (auto simp add: meditate_def)
  have "h = \<lparr>id' = ''3f0c9a52-6f0e-4f19-9d3b-0a1b2c3d4e5f'', name = ''Meditate'',
                   description = None, frequency = Daily, completions = [],
                   createdAt = ''2024-03-01T00:00:00Z''\<rparr>"
    using h(2-7) by (cases h) simp
  with h(1,8) nf show ?thesis by (simp add: meditate_def)
qed

text \<open>
  C10. \<^verbatim>\<open>addHabit\<close> with the id of a stored habit replaces that habit: when the
  storage layer does not fail the call resolves, the mapping has as many entries as
  before under the same keys, and the id now gives the new record.
\<close>

theorem addHabit_existing_id:
  assumes "getHabit i s = Some old" and "a_id attrs = Some i" and "no_write_fault (disk s)"
  shows "\<exists>s'. addHabit attrs uuid now s = (Resolved (new_Habit attrs uuid now), s')
           \<and> id' (new_Habit attrs uuid now) = i
           \<and> length (habits s') = length (habits s)
           \<and> map fst (habits s') = map fst (habits s)
           \<and> getHabit i s' = Some (new_Habit attrs uuid now)"
proof -
  let ?h = "new_Habit attrs uuid now"
  have i: "id' ?h = i" using assms(2) by (simp add: new_Habit_def)
  let ?s1 = "s\<lparr>habits := Map_set (habits s) i ?h\<rparr>"
  from assms(3) have nf: "no_write_fault (disk ?s1)" by simp
  have eq: "addHabit attrs uuid now s = (Resolved ?h, snd (save ?s1))"
    using and_then_save [OF nf] by (simp add: addHabit_def Let_def i)
  have mem: "i \<in> set (map fst (habits s))"
    using assms(1) by (auto simp add: getHabit_def Map_get_def dest: map_of_SomeD intro: rev_image_eqI)
  have keys: "map fst (habits (snd (save ?s1))) = map fst (habits s)"
    using mem by (simp add: save_habits Map_set_def AList.update_keys)
  have len: "length (habits (snd (save ?s1))) = length (habits s)"
    using arg_cong [OF keys, of length] by simp
  have get: "getHabit i (snd (save ?s1)) = Some ?h"
    by (simp add: save_habits getHabit_def Map_get_def Map_set_def AList.update_conv')
  from eq i len keys get show ?thesis by blast
qed

theorem addHabit_existing_id_witness:
  "getHabit ''abc'' run_store = Some run
   \<and> a_id run_again = Some ''abc''
   \<and> no_write_fault (disk run_store)
   \<and> fst (addHabit run_again ''u-1'' ''2024-03-01T00:00:00Z'' run_store)
       = Resolved (new_Habit run_again ''u-1'' ''2024-03-01T00:00:00Z'')
   \<and> length (habits (snd (addHabit run_again ''u-1'' ''2024-03-01T00:00:00Z'' run_store))) = 1
   \<and> getHabit ''abc'' (snd (addHabit run_again ''u-1'' ''2024-03-01T00:00:00Z'' run_store))
       = Some (new_Habit run_again ''u-1'' ''2024-03-01T00:00:00Z'')
   \<and> name (new_Habit run_again ''u-1'' ''2024-03-01T00:00:00Z'') \<noteq> name run"
proof -
  have g: "getHabit ''abc'' run_store = Some run"
    by (simp add: getHabit_def Map_get_def run_store_def)
  have a: "a_id run_again = Some ''abc''"
    by (simp add: run_again_def)
  have nf: "no_write_fault (disk run_store)"
    by (simp add: no_write_fault_def run_store_def blank_disk_def)
  have l: "length (habits run_store) = 1"
    by (simp add: run_store_def)
  have n: "name (new_Habit run_again ''u-1'' ''2024-03-01T00:00:00Z'') \<noteq> name run"
    by (simp add: new_Habit_def run_again_def run_def)
  from addHabit_existing_id [OF g a nf, of "''u-1''" "''2024-03-01T00:00:00Z''"] g a nf l n
  show ?thesis by auto
qed

subsection \<open>Deleting a habit\<close>

text \<open>
  C9. \<^verbatim>\<open>deleteHabit\<close> on an id that is not in the mapping resolves with \<open>False\<close> and
  leaves mapping and disk as they are. On a stored id, when the storage layer does not
  fail, it resolves with \<open>True\<close>, the entry is gone from the mapping (the others stay),
  the collection is persisted, and a second call on the same id resolves with \<open>False\<close>.
\<close>

theorem deleteHabit_contract:
  "(getHabit i s = None \<longrightarrow> deleteHabit i s = (Resolved False, s))
   \<and> (getHabit i s \<noteq> None \<and> no_write_fault (disk s) \<longrightarrow>
        (\<exists>s'. deleteHabit i s = (Resolved True, s')
           \<and> habits s' = filter (\<lambda>e. fst e \<noteq> i) (habits s)
           \<and> getHabit i s' = None
           \<and> (\<forall>j. j \<noteq> i \<longrightarrow> getHabit j s' = getHabit j s)
           \<and> persisted s'
           \<and> deleteHabit i s' = (Resolved False, s')))"
proof (intro conjI impI)
  assume "getHabit i s = None"
  then show "deleteHabit i s = (Resolved False, s)"
    by (simp add: deleteHabit_def getHabit_def Map_get_def Map_has_def)
next
  assume a: "getHabit i s \<noteq> None \<and> no_write_fault (disk s)"
  let ?s1 = "s\<lparr>habits := Map_delete (habits s) i\<rparr>"
  from a have nf: "no_write_fault (disk ?s1)" by simp
  have eq: "deleteHabit i s = (Resolved True, snd (save ?s1))"
    using a and_then_save [OF nf]
    by (simp add: deleteHabit_def getHabit_def Map_get_def Map_has_def Let_def)
  have gone: "getHabit i (snd (save ?s1)) = None"
    by (simp add: save_habits getHabit_def Map_get_def Map_delete_def AList.delete_conv')
  show "\<exists>s'. deleteHabit i s = (Resolved True, s')
           \<and> habits s' = filter (\<lambda>e. fst e \<noteq> i) (habits s)
           \<and> getHabit i s' = None
           \<and> (\<forall>j. j \<noteq> i \<longrightarrow> getHabit j s' = getHabit j s)
           \<and> persisted s'
           \<and> deleteHabit i s' = (Resolved False, s')"
  proof (intro exI conjI)
    show "deleteHabit i s = (Resolved True, snd (save ?s1))" by (rule eq)
    show "habits (snd (save ?s1)) = filter (\<lambda>e. fst e \<noteq> i) (habits s)"
      by (simp add: save_habits Map_delete_def AList.delete_eq)
        (rule filter_cong, auto)
    show "getHabit i (snd (save ?s1)) = None" by (rule gone)
    show "\<forall>j. j \<noteq> i \<longrightarrow> getHabit j (snd (save ?s1)) = getHabit j s"
      by (simp add: save_habits getHabit_def Map_get_def Map_delete_def AList.delete_conv')
    show "persisted (snd (save ?s1))" by (rule save_persists(4) [OF nf])
    show "deleteHabit i (snd (save ?s1)) = (Resolved False, snd (save ?s1))"
      using gone by (simp add: deleteHabit_def getHabit_def Map_get_def Map_has_def)
  qed
qed

theorem deleteHabit_contract_witness:
  "getHabit ''ghost'' run_store = None
   \<and> deleteHabit ''ghost'' run_store = (Resolved False, run_store)
   \<and> getHabit ''abc'' run_store \<noteq> None
   \<and> no_write_fault (disk run_store)
   \<and> fst (deleteHabit ''abc'' run_store) = Resolved True
   \<and> habits (snd (deleteHabit ''abc'' run_store)) = []
   \<and> persisted (snd (deleteHabit ''abc'' run_store))
   \<and> fst (deleteHabit ''abc'' (snd (deleteHabit ''abc'' run_store))) = Resolved False"
proof -
  have g: "getHabit ''ghost'' run_store = None" "getHabit ''abc'' run_store \<noteq> None"
    by (simp_all add: getHabit_def Map_get_def run_store_def)
  have nf: "no_write_fault (disk run_store)"
    by (simp add: no_write_fault_def run_store_def blank_disk_def)
  have h: "filter (\<lambda>e. fst e \<noteq> ''abc'') (habits run_store) = []"
    by (simp add: run_store_def)
  from deleteHabit_contract [of "''abc''" run_store] g nf
  obtain s' where s': "deleteHabit ''abc'' run_store = (Resolved True, s')"
    "habits s' = filter (\<lambda>e. fst e \<noteq> ''abc'') (habits run_store)"
    "persisted s'" "deleteHabit ''abc'' s' = (Resolved False, s')"
    by auto
  with deleteHabit_contract [of "''ghost''" run_store] g nf h show ?thesis by simp
qed

subsection \<open>The invariant of the mapping\<close>

text \<open>
  Every method keeps the mapping keyed by id, and a store made by \<^verbatim>\<open>create\<close> starts
  so: the mappings of C1 and C4 are all the mappings a store can reach.
\<close>

lemma load_habits_cases:
  "habits (snd (load s)) = habits s
   \<or> habits (snd (load s)) = []
   \<or> (\<exists>hs. habits (snd (load s)) = Map_new (map (\<lambda>h. (id' h, h)) hs))"
  by (auto simp add: load_def split: sum.splits option.splits json.splits)

lemma keyed_by_id_kept:
  assumes "keyed_by_id (habits s)"
  shows "keyed_by_id (habits (snd (addHabit attrs uuid now s)))"
    and "keyed_by_id (habits (snd (updateHabit i p s)))"
    and "keyed_by_id (habits (snd (deleteHabit i s)))"
    and "keyed_by_id (habits (snd (logCompletion i d s)))"
    and "keyed_by_id (habits (snd (load s)))"
proof -
  show "keyed_by_id (habits (snd (addHabit attrs uuid now s)))"
    using assms
    by (simp add: addHabit_def Let_def habits_and_then_save Map_set_def keyed_by_id_update)
  show "keyed_by_id (habits (snd (updateHabit i p s)))"
    using assms
    by (cases "Map_get (habits s) i")
       (simp_all add: updateHabit_def Let_def habits_and_then_save Map_set_def keyed_by_id_update)
  show "keyed_by_id (habits (snd (deleteHabit i s)))"
    using assms
    by (simp add: deleteHabit_def Let_def habits_and_then_save Map_delete_def keyed_by_id_delete)
  show "keyed_by_id (habits (snd (logCompletion i d s)))"
  proof (cases "Map_get (habits s) i")
    case None
    then show ?thesis using assms by (simp add: logCompletion_def)
  next
    case (Some h)
    then have "id' h = i"
      using getHabit_keyed [OF assms, of i h] by (simp add: getHabit_def)
    then show ?thesis
      using assms Some
      by (simp add: logCompletion_def Let_def habits_and_then_save Map_set_def keyed_by_id_update)
  qed
  show "keyed_by_id (habits (snd (load s)))"
    using load_habits_cases [of s] assms keyed_by_id_Map_new
    by (auto simp add: keyed_by_id_def)
qed

lemma keyed_by_id_create: "keyed_by_id (habits (snd (create path d)))"
  unfolding create_def
  by (rule keyed_by_id_kept(5)) (simp add: keyed_by_id_def)

end
